theory Spec2Isabelle
  imports Main "HOL-Library.AList"
begin

section \<open>Python values, exceptions and text\<close>

text \<open>
  The analyzer (\<^verbatim>\<open>src/analyzer.py\<close>) handles articles as Python dictionaries and decodes
  the service's answer with \<^verbatim>\<open>json.loads\<close>. A Python value is one of the seven kinds
  that \<^verbatim>\<open>json.loads\<close> produces and that the collector stores in an article. A dictionary
  is an association list in insertion order, written with \<open>AList.update\<close> (a repeated
  key keeps its place and takes the new value, as a Python \<^verbatim>\<open>dict\<close> does). A float is
  kept as the text of its literal. Text is a \<open>string\<close>: the bytes of its UTF-8 encoding.
\<close>

datatype pyval =
    PNone
  | PBool bool
  | PInt int
  | PFloat string
  | PStr string
  | PList "pyval list"
  | PDict "(string \<times> pyval) list"

type_synonym article = "(string \<times> pyval) list"

text \<open>
  Exceptions, all of them subclasses of \<^verbatim>\<open>Exception\<close>. The text they carry is what
  \<^verbatim>\<open>str(e)\<close> returns. \<open>ServiceError\<close> stands for whatever the client library raises
  (connection error, timeout, API status error). \<open>RetryError\<close> is what tenacity raises when
  it gives up; it wraps the exception of the last attempt.
\<close>

datatype exn =
    JSONDecodeError string
  | TypeError string
  | KeyError string
  | ServiceError string
  | RetryError exn

fun exn_class :: "exn \<Rightarrow> string" where
  "exn_class (JSONDecodeError m) = ''JSONDecodeError''"
| "exn_class (TypeError m) = ''TypeError''"
| "exn_class (KeyError m) = ''KeyError''"
| "exn_class (ServiceError m) = ''ServiceError''"
| "exn_class (RetryError e) = ''RetryError''"

text \<open>
  \<^verbatim>\<open>str(e)\<close>. For a \<^verbatim>\<open>RetryError\<close> Python prints the representation of the future
  of the last attempt, which holds a memory address; the address is left out here.
\<close>

fun str_exn :: "exn \<Rightarrow> string" where
  "str_exn (JSONDecodeError m) = m"
| "str_exn (TypeError m) = m"
| "str_exn (KeyError m) = m"
| "str_exn (ServiceError m) = m"
| "str_exn (RetryError e) = ''RetryError[<Future state=finished raised '' @ exn_class e @ ''>]''"

fun type_name :: "pyval \<Rightarrow> string" where
  "type_name PNone = ''NoneType''"
| "type_name (PBool b) = ''bool''"
| "type_name (PInt i) = ''int''"
| "type_name (PFloat f) = ''float''"
| "type_name (PStr s) = ''str''"
| "type_name (PList xs) = ''list''"
| "type_name (PDict d) = ''dict''"

subsection \<open>Decimal numerals\<close>

definition digit_char :: "nat \<Rightarrow> char" where
  "digit_char d = char_of (48 + d)"

fun show_nat :: "nat \<Rightarrow> string" where
  "show_nat n = (if n < 10 then [digit_char n] else show_nat (n div 10) @ [digit_char (n mod 10)])"

declare show_nat.simps [simp del]

definition is_digit :: "char \<Rightarrow> bool" where
  "is_digit c \<longleftrightarrow> 48 \<le> (of_char c :: nat) \<and> (of_char c :: nat) \<le> 57"

definition digits_value :: "string \<Rightarrow> nat" where
  "digits_value ds = foldl (\<lambda>acc c. 10 * acc + (of_char c - 48)) 0 ds"

subsection \<open>Text operations of \<^verbatim>\<open>str\<close>\<close>

definition startswith :: "string \<Rightarrow> string \<Rightarrow> bool" where
  "startswith s p \<longleftrightarrow> take (length p) s = p"

text \<open>\<^verbatim>\<open>s.find(p)\<close>: the index of the first occurrence of \<open>p\<close>, \<open>None\<close> for Python's -1.\<close>

fun find_from :: "nat \<Rightarrow> string \<Rightarrow> string \<Rightarrow> nat option" where
  "find_from i p [] = (if p = [] then Some i else None)"
| "find_from i p (c # cs) = (if startswith (c # cs) p then Some i else find_from (Suc i) p cs)"

definition find :: "string \<Rightarrow> string \<Rightarrow> nat option" where
  "find s p = find_from 0 p s"

text \<open>\<^verbatim>\<open>p in s\<close> for two strings.\<close>

definition contains :: "string \<Rightarrow> string \<Rightarrow> bool" where
  "contains s p \<longleftrightarrow> find s p \<noteq> None"

text \<open>
  Python's whitespace (\<^verbatim>\<open>str.isspace\<close>, which \<^verbatim>\<open>str.strip\<close> and the pattern \<^verbatim>\<open>\s\<close>
  both use): U+0009..U+000D, U+001C..U+0020, U+0085, U+00A0, U+1680, U+2000..U+200A,
  U+2028, U+2029, U+202F, U+205F and U+3000. \<open>space_len s\<close> is the number of bytes of the
  whitespace character at the head of \<open>s\<close>, and 0 when \<open>s\<close> does not start with one.
\<close>

definition space_len :: "string \<Rightarrow> nat" where
  "space_len s =
     (case map of_char (take 3 s) of
        [] \<Rightarrow> 0
      | (a :: nat) # r \<Rightarrow>
          if (9 \<le> a \<and> a \<le> 13) \<or> (28 \<le> a \<and> a \<le> 32) then 1
          else if a = 0xC2 then
            (case r of b # _ \<Rightarrow> if b = 0x85 \<or> b = 0xA0 then 2 else 0 | [] \<Rightarrow> 0)
          else if a = 0xE1 then (if r = [0x9A, 0x80] then 3 else 0)
          else if a = 0xE2 then
            (case r of
               [b, c] \<Rightarrow>
                 if b = 0x80 \<and> ((0x80 \<le> c \<and> c \<le> 0x8A) \<or> c = 0xA8 \<or> c = 0xA9 \<or> c = 0xAF) then 3
                 else if b = 0x81 \<and> c = 0x9F then 3
                 else 0
             | _ \<Rightarrow> 0)
          else if a = 0xE3 then (if r = [0x80, 0x80] then 3 else 0)
          else 0)"

text \<open>The same test at the end of a text, on the reversed text.\<close>

definition space_len_rev :: "string \<Rightarrow> nat" where
  "space_len_rev rs =
     (case map of_char (take 3 rs) of
        [] \<Rightarrow> 0
      | (a :: nat) # r \<Rightarrow>
          if (9 \<le> a \<and> a \<le> 13) \<or> (28 \<le> a \<and> a \<le> 32) then 1
          else if (a = 0x85 \<or> a = 0xA0) \<and> take 1 r = [0xC2] then 2
          else if a # r = [0x80, 0x9A, 0xE1] then 3
          else if ((0x80 \<le> a \<and> a \<le> 0x8A) \<or> a = 0xA8 \<or> a = 0xA9 \<or> a = 0xAF) \<and> r = [0x80, 0xE2] then 3
          else if a # r = [0x9F, 0x81, 0xE2] then 3
          else if a # r = [0x80, 0x80, 0xE3] then 3
          else 0)"

function lstrip :: "string \<Rightarrow> string" where
  "lstrip s = (if space_len s = 0 then s else lstrip (drop (space_len s) s))"
  by pat_completeness auto
termination
proof (relation "measure length")
  fix s :: string
  assume "space_len s \<noteq> 0"
  then have "0 < space_len s" by simp
  moreover have "space_len s \<le> length s"
    by (cases s; cases "tl s"; cases "tl (tl s)")
       (auto simp: space_len_def split: list.splits)
  ultimately show "(drop (space_len s) s, s) \<in> measure length" by simp
qed simp

function lstrip_rev :: "string \<Rightarrow> string" where
  "lstrip_rev s = (if space_len_rev s = 0 then s else lstrip_rev (drop (space_len_rev s) s))"
  by pat_completeness auto
termination
proof (relation "measure length")
  fix s :: string
  assume "space_len_rev s \<noteq> 0"
  then have "0 < space_len_rev s" by simp
  moreover have "space_len_rev s \<le> length s"
    by (cases s; cases "tl s"; cases "tl (tl s)")
       (auto simp: space_len_rev_def split: list.splits)
  ultimately show "(drop (space_len_rev s) s, s) \<in> measure length" by simp
qed simp

declare lstrip.simps [simp del] lstrip_rev.simps [simp del]

definition rstrip :: "string \<Rightarrow> string" where
  "rstrip s = rev (lstrip_rev (rev s))"

definition strip :: "string \<Rightarrow> string" where
  "strip s = rstrip (lstrip s)"

section \<open>The JSON decoder\<close>

text \<open>
  \<^verbatim>\<open>json.loads\<close> for a \<^verbatim>\<open>str\<close>, after CPython's scanner (\<^verbatim>\<open>Modules/_json.c\<close>) and
  \<^verbatim>\<open>json/decoder.py\<close>, with the messages of CPython up to 3.12. An error of the scanner
  is a message and the number of bytes of the text that were left at the error position.
  Two limits of CPython are not modelled: the recursion limit on nesting, and the limit
  on the number of digits of an integer literal.
\<close>

type_synonym scan_error = "string \<times> nat"

definition json_ws :: "char \<Rightarrow> bool" where
  "json_ws c \<longleftrightarrow> c = CHR '' '' \<or> c = CHR 0x09 \<or> c = CHR 0x0A \<or> c = CHR 0x0D"

definition skip_ws :: "string \<Rightarrow> string" where
  "skip_ws s = dropWhile json_ws s"

definition utf8 :: "nat \<Rightarrow> string" where
  "utf8 u =
     (if u < 0x80 then [char_of u]
      else if u < 0x800 then [char_of (0xC0 + u div 64), char_of (0x80 + u mod 64)]
      else if u < 0x10000 then
        [char_of (0xE0 + u div 4096), char_of (0x80 + (u div 64) mod 64), char_of (0x80 + u mod 64)]
      else
        [char_of (0xF0 + u div 262144), char_of (0x80 + (u div 4096) mod 64),
         char_of (0x80 + (u div 64) mod 64), char_of (0x80 + u mod 64)])"

definition hex_value :: "char \<Rightarrow> nat option" where
  "hex_value c =
     (let n = (of_char c :: nat) in
      if 48 \<le> n \<and> n \<le> 57 then Some (n - 48)
      else if 97 \<le> n \<and> n \<le> 102 then Some (n - 87)
      else if 65 \<le> n \<and> n \<le> 70 then Some (n - 55)
      else None)"

definition hex4 :: "string \<Rightarrow> nat option" where
  "hex4 ds =
     (case map hex_value ds of
        [Some a, Some b, Some c, Some d] \<Rightarrow> Some (((a * 16 + b) * 16 + c) * 16 + d)
      | _ \<Rightarrow> None)"

definition escape_char :: "char \<Rightarrow> char option" where
  "escape_char e =
     (if e = CHR 0x22 \<or> e = CHR 0x5C \<or> e = CHR ''/'' then Some e
      else if e = CHR ''b'' then Some (CHR 0x08)
      else if e = CHR ''f'' then Some (CHR 0x0C)
      else if e = CHR ''n'' then Some (CHR 0x0A)
      else if e = CHR ''r'' then Some (CHR 0x0D)
      else if e = CHR ''t'' then Some (CHR 0x09)
      else None)"

definition msg_unterminated :: string where
  "msg_unterminated = ''Unterminated string starting at''"

definition msg_escape :: string where
  "msg_escape = ''Invalid '' @ [CHR 0x5C] @ ''escape''"

definition msg_uescape :: string where
  "msg_uescape = ''Invalid '' @ [CHR 0x5C] @ ''uXXXX escape''"

text \<open>
  \<^verbatim>\<open>scanstring_unicode\<close> (strict mode), called after the opening quote. \<open>begin\<close> locates
  the opening quote, \<open>acc\<close> is the text decoded so far. The result is the decoded text
  and the rest of the input after the closing quote.
\<close>

function scanstring :: "nat \<Rightarrow> string \<Rightarrow> string \<Rightarrow> scan_error + (string \<times> string)" where
  "scanstring begin acc s =
     (case s of
        [] \<Rightarrow> Inl (msg_unterminated, begin)
      | c # cs \<Rightarrow>
          if c = CHR 0x22 then Inr (acc, cs)
          else if c \<noteq> CHR 0x5C then
            (if (of_char c :: nat) \<le> 0x1F then Inl (''Invalid control character at'', length s)
             else scanstring begin (acc @ [c]) cs)
          else
            (case cs of
               [] \<Rightarrow> Inl (msg_unterminated, begin)
             | e # r \<Rightarrow>
                 if e \<noteq> CHR ''u'' then
                   (case escape_char e of
                      None \<Rightarrow> Inl (msg_escape, length s)
                    | Some ch \<Rightarrow> scanstring begin (acc @ [ch]) r)
                 else if length r \<le> 4 then Inl (msg_uescape, length cs)
                 else
                   (case hex4 (take 4 r) of
                      None \<Rightarrow> Inl (msg_uescape, length cs)
                    | Some u \<Rightarrow>
                        if 0xD800 \<le> u \<and> u \<le> 0xDBFF \<and> 6 < length (drop 4 r)
                           \<and> take 2 (drop 4 r) = [CHR 0x5C, CHR ''u''] then
                          (case hex4 (take 4 (drop 6 r)) of
                             None \<Rightarrow> Inl (msg_uescape, length (drop 4 r) - 1)
                           | Some u2 \<Rightarrow>
                               if 0xDC00 \<le> u2 \<and> u2 \<le> 0xDFFF then
                                 scanstring begin
                                   (acc @ utf8 (0x10000 + (u - 0xD800) * 1024 + (u2 - 0xDC00)))
                                   (drop 10 r)
                               else scanstring begin (acc @ utf8 u) (drop 4 r))
                        else scanstring begin (acc @ utf8 u) (drop 4 r))))"
  by pat_completeness auto
termination
  by (relation "measure (\<lambda>(b, acc, s). length s)") auto

declare scanstring.simps [simp del]

text \<open>
  \<^verbatim>\<open>_match_number_unicode\<close>: the longest prefix that is a JSON number. \<open>number_parts\<close>
  gives the lengths of its sign, integer part, fraction and exponent (an integer part of
  length 0 means that there is no number here).
\<close>

definition number_parts :: "string \<Rightarrow> nat \<times> nat \<times> nat \<times> nat" where
  "number_parts s =
     (let sign_len = (if startswith s ''-'' then 1 else 0);
          s1 = drop sign_len s;
          int_len =
            (case s1 of
               [] \<Rightarrow> 0
             | d # r \<Rightarrow>
                 if d = CHR ''0'' then 1
                 else if is_digit d then 1 + length (takeWhile is_digit r)
                 else 0);
          s2 = drop int_len s1;
          frac_len =
            (case s2 of
               c # d # r \<Rightarrow>
                 if c = CHR ''.'' \<and> is_digit d then 2 + length (takeWhile is_digit r) else 0
             | _ \<Rightarrow> 0);
          s3 = drop frac_len s2;
          exp_len =
            (case s3 of
               [] \<Rightarrow> 0
             | e # r \<Rightarrow>
                 if e = CHR ''e'' \<or> e = CHR ''E'' then
                   (let sg = (case r of
                                [] \<Rightarrow> 0
                              | c # _ \<Rightarrow> if c = CHR ''+'' \<or> c = CHR ''-'' then 1 else 0);
                        ds = length (takeWhile is_digit (drop sg r))
                    in if ds = 0 then 0 else 1 + sg + ds)
                 else 0)
      in (sign_len, int_len, frac_len, exp_len))"

definition match_number :: "string \<Rightarrow> (pyval \<times> string) option" where
  "match_number s =
     (case number_parts s of
        (sign_len, int_len, frac_len, exp_len) \<Rightarrow>
          if int_len = 0 then None
          else
            (let n = sign_len + int_len + frac_len + exp_len in
             Some (if frac_len = 0 \<and> exp_len = 0
                   then PInt ((if sign_len = 0 then 1 else - 1)
                              * int (digits_value (take int_len (drop sign_len s))))
                   else PFloat (take n s),
                   drop n s)))"

text \<open>
  The head of \<^verbatim>\<open>scan_once_unicode\<close>: a string, a constant or a number is read whole;
  for an object or an array only the opening bracket is read.
\<close>

datatype token = Atom pyval | OpenObject | OpenArray

definition scan_head :: "string \<Rightarrow> scan_error + (token \<times> string)" where
  "scan_head s =
     (case s of
        [] \<Rightarrow> Inl (''Expecting value'', 0)
      | c # cs \<Rightarrow>
          if c = CHR 0x22 then
            (case scanstring (length s) [] cs of
               Inl e \<Rightarrow> Inl e
             | Inr (str, rest) \<Rightarrow> Inr (Atom (PStr str), rest))
          else if c = CHR ''{'' then Inr (OpenObject, cs)
          else if c = CHR ''['' then Inr (OpenArray, cs)
          else if startswith s ''null'' then Inr (Atom PNone, drop 4 s)
          else if startswith s ''true'' then Inr (Atom (PBool True), drop 4 s)
          else if startswith s ''false'' then Inr (Atom (PBool False), drop 5 s)
          else if startswith s ''NaN'' then Inr (Atom (PFloat ''NaN''), drop 3 s)
          else if startswith s ''Infinity'' then Inr (Atom (PFloat ''Infinity''), drop 8 s)
          else if startswith s ''-Infinity'' then Inr (Atom (PFloat ''-Infinity''), drop 9 s)
          else
            (case match_number s of
               None \<Rightarrow> Inl (''Expecting value'', length s)
             | Some (v, rest) \<Rightarrow> Inr (Atom v, rest)))"

text \<open>
  The key of a member, its colon and the whitespace around it, as in the loop of
  \<^verbatim>\<open>_parse_object_unicode\<close>.
\<close>

definition read_key :: "string \<Rightarrow> scan_error + (string \<times> string)" where
  "read_key s =
     (case s of
        [] \<Rightarrow> Inl (''Expecting property name enclosed in double quotes'', 0)
      | c # cs \<Rightarrow>
          if c \<noteq> CHR 0x22
          then Inl (''Expecting property name enclosed in double quotes'', length s)
          else
            (case scanstring (length s) [] cs of
               Inl e \<Rightarrow> Inl e
             | Inr (key, rest) \<Rightarrow>
                 (case skip_ws rest of
                    [] \<Rightarrow> Inl (''Expecting '' @ [CHR 0x27] @ '':'' @ [CHR 0x27] @ '' delimiter'', 0)
                  | d # rest' \<Rightarrow>
                      if d \<noteq> CHR '':''
                      then Inl (''Expecting '' @ [CHR 0x27] @ '':'' @ [CHR 0x27] @ '' delimiter'',
                                length (d # rest'))
                      else Inr (key, skip_ws rest'))))"

text \<open>
  The scanner proper. CPython's \<^verbatim>\<open>scan_once_unicode\<close>, \<^verbatim>\<open>_parse_array_unicode\<close> and
  \<^verbatim>\<open>_parse_object_unicode\<close> call one another; here the pending arrays and objects are
  an explicit stack, the innermost first. An array frame holds the elements read so far
  (latest first), an object frame the members stored so far and the key being read.
  In mode \<open>Scan\<close> a value is expected at the head of the input (where \<^verbatim>\<open>scan_once\<close> is
  called), in mode \<open>Done v\<close> the value \<open>v\<close> has just been read.
\<close>

datatype frame = InArray "pyval list" | InObject "(string \<times> pyval) list" string

datatype mode = Scan | Done pyval

definition msg_comma :: string where
  "msg_comma = ''Expecting '' @ [CHR 0x27] @ '','' @ [CHR 0x27] @ '' delimiter''"

function run :: "mode \<Rightarrow> frame list \<Rightarrow> string \<Rightarrow> scan_error + (pyval \<times> string)" where
  "run Scan stk s =
     (case scan_head s of
        Inl e \<Rightarrow> Inl e
      | Inr (Atom v, rest) \<Rightarrow> run (Done v) stk rest
      | Inr (OpenArray, rest) \<Rightarrow>
          (case skip_ws rest of
             [] \<Rightarrow> Inl (''Expecting value'', 0)
           | c # r \<Rightarrow>
               if c = CHR '']'' then run (Done (PList [])) stk r
               else run Scan (InArray [] # stk) (c # r))
      | Inr (OpenObject, rest) \<Rightarrow>
          (case skip_ws rest of
             [] \<Rightarrow> Inl (''Expecting property name enclosed in double quotes'', 0)
           | c # r \<Rightarrow>
               if c = CHR ''}'' then run (Done (PDict [])) stk r
               else
                 (case read_key (c # r) of
                    Inl e \<Rightarrow> Inl e
                  | Inr (key, rest') \<Rightarrow> run Scan (InObject [] key # stk) rest')))"
| "run (Done v) [] s = Inr (v, s)"
| "run (Done v) (InArray acc # stk) s =
     (case skip_ws s of
        [] \<Rightarrow> Inl (msg_comma, 0)
      | c # r \<Rightarrow>
          if c = CHR '']'' then run (Done (PList (rev (v # acc)))) stk r
          else if c = CHR '','' then run Scan (InArray (v # acc) # stk) (skip_ws r)
          else Inl (msg_comma, length (c # r)))"
| "run (Done v) (InObject pairs key # stk) s =
     (case skip_ws s of
        [] \<Rightarrow> Inl (msg_comma, 0)
      | c # r \<Rightarrow>
          if c = CHR ''}'' then run (Done (PDict (AList.update key v pairs))) stk r
          else if c = CHR '','' then
            (case read_key (skip_ws r) of
               Inl e \<Rightarrow> Inl e
             | Inr (key', rest') \<Rightarrow> run Scan (InObject (AList.update key v pairs) key' # stk) rest')
          else Inl (msg_comma, length (c # r)))"
  by pat_completeness auto
termination
proof -
  have ws: "length (skip_ws s) \<le> length s" for s
    by (simp add: skip_ws_def length_dropWhile_le)
  have ws_cons: "length r < length s" if "skip_ws s = c # r" for s c r
    using ws [of s] that by simp
  have str: "scanstring b acc s = Inr (x, r) \<Longrightarrow> length r < length s" for b acc s x r
  proof (induction "length s" arbitrary: acc s rule: less_induct)
    case less
    from less.prems show ?case
      apply (subst (asm) scanstring.simps)
      apply (simp split: list.splits if_splits option.splits)
      apply ((drule less.hyps [rotated], simp, simp) | fastforce)+
      done
  qed
  have num: "length r < length s" if a: "match_number s = Some (v, r)" for s v r
  proof -
    have "s \<noteq> []"
      using a by (auto simp: match_number_def number_parts_def Let_def startswith_def)
    moreover from a obtain n where "r = drop n s" "0 < n"
      by (auto simp: match_number_def Let_def split: prod.splits if_splits)
    ultimately show ?thesis by simp
  qed
  have head: "scan_head s = Inr (t, r) \<Longrightarrow> length r < length s" for s t r
    unfolding scan_head_def
    apply (simp split: list.splits if_splits sum.splits option.splits prod.splits)
    apply (auto dest!: str num simp: startswith_def)
    done
  have key: "read_key s = Inr (k, r) \<Longrightarrow> length r < length s" for s k r
    unfolding read_key_def
    apply (simp split: list.splits if_splits sum.splits prod.splits)
    apply (auto dest!: str ws_cons)
    using ws le_less_trans less_SucI less_trans apply (metis (no_types))
    done
  show ?thesis
    apply (relation "measure (\<lambda>(m, stk, s). length s)")
          apply simp
    using head key ws ws_cons
         apply (auto dest!: head key ws_cons)
     apply (metis ws le_less_trans)
    apply (metis ws le_less_trans less_trans)
    done
qed

declare run.simps [simp del]

text \<open>
  The message of a \<^verbatim>\<open>JSONDecodeError\<close>: \<^verbatim>\<open>msg: line L column C (char P)\<close>, where
  the position counts characters, not bytes.
\<close>

definition count_chars :: "string \<Rightarrow> nat" where
  "count_chars s = length (filter (\<lambda>c. \<not> (0x80 \<le> (of_char c :: nat) \<and> (of_char c :: nat) \<le> 0xBF)) s)"

definition errmsg :: "string \<Rightarrow> string \<Rightarrow> nat \<Rightarrow> string" where
  "errmsg msg doc left =
     (let pre = take (length doc - left) doc;
          pos = count_chars pre;
          lineno = length (filter (\<lambda>c. c = CHR 0x0A) pre) + 1;
          colno = count_chars (rev (takeWhile (\<lambda>c. c \<noteq> CHR 0x0A) (rev pre))) + 1
      in msg @ '': line '' @ show_nat lineno @ '' column '' @ show_nat colno
           @ '' (char '' @ show_nat pos @ '')'')"

text \<open>\<^verbatim>\<open>json.loads\<close> with \<^verbatim>\<open>JSONDecoder.decode\<close> and \<^verbatim>\<open>raw_decode\<close>.\<close>

definition json_loads :: "string \<Rightarrow> exn + pyval" where
  "json_loads doc =
     (if startswith doc [CHR 0xEF, CHR 0xBB, CHR 0xBF]
      then Inl (JSONDecodeError (errmsg ''Unexpected UTF-8 BOM (decode using utf-8-sig)'' doc (length doc)))
      else
        (case run Scan [] (skip_ws doc) of
           Inl (msg, left) \<Rightarrow> Inl (JSONDecodeError (errmsg msg doc left))
         | Inr (obj, rest) \<Rightarrow>
             (case skip_ws rest of
                [] \<Rightarrow> Inr obj
              | c # r \<Rightarrow> Inl (JSONDecodeError (errmsg ''Extra data'' doc (length (c # r)))))))"

section \<open>The analyzer\<close>

subsection \<open>Store, events and the service\<close>

text \<open>
  Articles are Python dictionaries, which are mutable objects: the store holds them, and
  an address is an index into the store. \<^verbatim>\<open>article.copy()\<close> allocates a new dictionary,
  \<^verbatim>\<open>d[k] = v\<close> updates the dictionary at an address in place. The state also records
  what the run does to the outside world, in order: the requests to the service, the
  calls of \<^verbatim>\<open>time.sleep\<close> of the analyzer, the waits of the retry wrapper, and the
  log lines (kept as structured records instead of formatted text).
\<close>

type_synonym addr = nat

datatype prompt = Prompt (p_title: pyval) (p_description: pyval) (p_categories: string)

datatype logline =
    AnalyzingArticle pyval
  | ApiRequestFailed exn
  | FailedToParse exn
  | RawResponse string
  | FailedToAnalyze exn
  | ProcessingBatch nat nat
  | SleepingBeforeNextBatch nat
  | AnalysisComplete nat

datatype event =
    Request prompt
  | Sleep nat
  | Backoff nat
  | Log logline

record state =
  heap :: "article list"
  calls :: nat
  trace :: "event list"

text \<open>
  The external service: the answer to the \<open>n\<close>-th request of the run (counted from 0) for
  a prompt is an exception or the list \<^verbatim>\<open>response.choices\<close>, each choice given by its
  \<^verbatim>\<open>message.content\<close>, which may be \<^verbatim>\<open>None\<close>. The prompt is the fixed template filled
  with three values, and is represented by these values.
\<close>

type_synonym service = "nat \<Rightarrow> prompt \<Rightarrow> exn + string option list"

definition emit :: "event \<Rightarrow> state \<Rightarrow> state" where
  "emit ev st = st\<lparr>trace := trace st @ [ev]\<rparr>"

definition dict_copy :: "addr \<Rightarrow> state \<Rightarrow> addr \<times> state" where
  "dict_copy a st = (length (heap st), st\<lparr>heap := heap st @ [heap st ! a]\<rparr>)"

definition dict_setitem :: "addr \<Rightarrow> string \<Rightarrow> pyval \<Rightarrow> state \<Rightarrow> state" where
  "dict_setitem a k v st = st\<lparr>heap := (heap st)[a := AList.update k v (heap st ! a)]\<rparr>"

definition dict_get :: "article \<Rightarrow> string \<Rightarrow> pyval \<Rightarrow> pyval" where
  "dict_get d k dflt = (case map_of d k of None \<Rightarrow> dflt | Some v \<Rightarrow> v)"

subsection \<open>Operations on Python values that may raise\<close>

text \<open>The characters of a text (each one the bytes of one UTF-8 character).\<close>

definition char_len :: "char \<Rightarrow> nat" where
  "char_len c =
     (let n = (of_char c :: nat) in
      if 0xF0 \<le> n then 4 else if 0xE0 \<le> n then 3 else if 0xC0 \<le> n then 2 else 1)"

function characters :: "string \<Rightarrow> string list" where
  "characters s =
     (case s of [] \<Rightarrow> [] | c # cs \<Rightarrow> take (char_len c) s # characters (drop (char_len c) s))"
  by pat_completeness auto
termination
  by (relation "measure length") (auto simp: char_len_def Let_def)

declare characters.simps [simp del]

fun join_strs :: "string \<Rightarrow> string list \<Rightarrow> string" where
  "join_strs sep [] = []"
| "join_strs sep [x] = x"
| "join_strs sep (x # y # ys) = x @ sep @ join_strs sep (y # ys)"

fun str_items :: "nat \<Rightarrow> pyval list \<Rightarrow> exn + string list" where
  "str_items i [] = Inr []"
| "str_items i (PStr s # xs) =
     (case str_items (Suc i) xs of Inl e \<Rightarrow> Inl e | Inr ss \<Rightarrow> Inr (s # ss))"
| "str_items i (x # xs) =
     Inl (TypeError (''sequence item '' @ show_nat i @ '': expected str instance, ''
                     @ type_name x @ '' found''))"

text \<open>\<^verbatim>\<open>", ".join(x)\<close>: \<open>x\<close> is iterated; every item has to be a string.\<close>

fun str_join :: "pyval \<Rightarrow> exn + string" where
  "str_join (PList xs) =
     (case str_items 0 xs of Inl e \<Rightarrow> Inl e | Inr ss \<Rightarrow> Inr (join_strs '', '' ss))"
| "str_join (PStr s) = Inr (join_strs '', '' (characters s))"
| "str_join (PDict d) = Inr (join_strs '', '' (map fst d))"
| "str_join v = Inl (TypeError ''can only join an iterable'')"

text \<open>
  \<^verbatim>\<open>x[:50]\<close>, of which only the failure matters (the slice goes to the log). A
  dictionary cannot be sliced: Python up to 3.11 raises the \<^verbatim>\<open>TypeError\<close> below, later
  versions a \<^verbatim>\<open>KeyError\<close>; both are caught by the same handler.
\<close>

fun slice50 :: "pyval \<Rightarrow> exn + pyval" where
  "slice50 (PStr s) = Inr (PStr (concat (take 50 (characters s))))"
| "slice50 (PList xs) = Inr (PList (take 50 xs))"
| "slice50 (PDict d) = Inl (TypeError (''unhashable type: '' @ [CHR 0x27] @ ''slice'' @ [CHR 0x27]))"
| "slice50 v =
     Inl (TypeError ([CHR 0x27] @ type_name v @ [CHR 0x27] @ '' object is not subscriptable''))"

text \<open>\<^verbatim>\<open>k in x\<close> for a string \<open>k\<close>.\<close>

fun py_contains :: "pyval \<Rightarrow> string \<Rightarrow> exn + bool" where
  "py_contains (PDict d) k = Inr (map_of d k \<noteq> None)"
| "py_contains (PList xs) k = Inr (PStr k \<in> set xs)"
| "py_contains (PStr s) k = Inr (contains s k)"
| "py_contains v k =
     Inl (TypeError (''argument of type '' @ [CHR 0x27] @ type_name v @ [CHR 0x27]
                     @ '' is not iterable''))"

text \<open>\<^verbatim>\<open>x[k] = v\<close> for a string \<open>k\<close>.\<close>

fun py_setitem :: "pyval \<Rightarrow> string \<Rightarrow> pyval \<Rightarrow> exn + pyval" where
  "py_setitem (PDict d) k v = Inr (PDict (AList.update k v d))"
| "py_setitem (PList xs) k v = Inl (TypeError ''list indices must be integers or slices, not str'')"
| "py_setitem x k v =
     Inl (TypeError ([CHR 0x27] @ type_name x @ [CHR 0x27]
                     @ '' object does not support item assignment''))"

text \<open>\<^verbatim>\<open>x[k]\<close> for a string \<open>k\<close>.\<close>

fun py_getitem :: "pyval \<Rightarrow> string \<Rightarrow> exn + pyval" where
  "py_getitem (PDict d) k =
     (case map_of d k of
        None \<Rightarrow> Inl (KeyError ([CHR 0x27] @ k @ [CHR 0x27]))
      | Some v \<Rightarrow> Inr v)"
| "py_getitem (PList xs) k = Inl (TypeError ''list indices must be integers or slices, not str'')"
| "py_getitem (PStr s) k =
     Inl (TypeError (''string indices must be integers, not '' @ [CHR 0x27] @ ''str'' @ [CHR 0x27]))"
| "py_getitem x k =
     Inl (TypeError ([CHR 0x27] @ type_name x @ [CHR 0x27] @ '' object is not subscriptable''))"

subsection \<open>Extracting the JSON text of a response\<close>

definition fence :: string where
  "fence = [CHR 0x60, CHR 0x60, CHR 0x60]"

definition fence_json :: string where
  "fence_json = fence @ ''json''"

text \<open>
  \<^verbatim>\<open>re.search(r'```json\s*(.*?)\s*```', content, re.DOTALL)\<close>, its group 1. After the
  first opening fence and the whitespace that follows it, the lazy group ends at the first
  position from which whitespace and a closing fence follow. (A search that fails at the
  first opening fence fails at every later one, since no closing fence follows.)
\<close>

fun lazy_group :: "string \<Rightarrow> string option" where
  "lazy_group [] = None"
| "lazy_group (c # cs) =
     (if startswith (lstrip (c # cs)) fence then Some []
      else map_option ((#) c) (lazy_group cs))"

definition re_search_fence :: "string \<Rightarrow> string option" where
  "re_search_fence content =
     (case find content fence_json of
        None \<Rightarrow> None
      | Some i \<Rightarrow> lazy_group (lstrip (drop (i + length fence_json) content)))"

text \<open>Lines 156 to 175: the text that is handed to \<^verbatim>\<open>json.loads\<close>.\<close>

definition extract_json :: "string \<Rightarrow> string" where
  "extract_json content =
     (if contains content fence_json then
        (case re_search_fence content of
           Some json_content \<Rightarrow> json_content
         | None \<Rightarrow> content)
      else
        (let json_match = strip content in
         if \<not> startswith json_match ''{'' then
           (case find content ''{'' of
              Some start_idx \<Rightarrow> drop start_idx content
            | None \<Rightarrow> json_match)
         else json_match))"

definition decode_response :: "string \<Rightarrow> exn + pyval" where
  "decode_response content = json_loads (extract_json content)"

subsection \<open>\<^verbatim>\<open>LocationAnalyzer.analyze_article\<close>\<close>

text \<open>Lines 177 to 181: ``ensure expected fields exist''.\<close>

definition default_fields :: "pyval \<Rightarrow> exn + pyval" where
  "default_fields result =
     (case py_contains result ''cities'' of
        Inl e \<Rightarrow> Inl e
      | Inr has_cities \<Rightarrow>
          (case (if \<not> has_cities then py_setitem result ''cities'' (PList []) else Inr result) of
             Inl e \<Rightarrow> Inl e
           | Inr result1 \<Rightarrow>
               (case py_contains result1 ''rationale'' of
                  Inl e \<Rightarrow> Inl e
                | Inr has_rationale \<Rightarrow>
                    if \<not> has_rationale
                    then py_setitem result1 ''rationale'' (PStr ''No rationale provided'')
                    else Inr result1)))"

text \<open>Lines 154 to 187, the body of the inner \<^verbatim>\<open>try\<close>, for a response text.\<close>

definition inner_try :: "string \<Rightarrow> addr \<Rightarrow> state \<Rightarrow> (exn + addr) \<times> state" where
  "inner_try content a st =
     (case decode_response content of
        Inl e \<Rightarrow> (Inl e, st)
      | Inr result \<Rightarrow>
          (case default_fields result of
             Inl e \<Rightarrow> (Inl e, st)
           | Inr result' \<Rightarrow>
               (let (article_result, st1) = dict_copy a st in
                case py_getitem result' ''cities'' of
                  Inl e \<Rightarrow> (Inl e, st1)
                | Inr cities \<Rightarrow>
                    (let st2 = dict_setitem article_result ''cities'' cities st1 in
                     case py_getitem result' ''rationale'' of
                       Inl e \<Rightarrow> (Inl e, st2)
                     | Inr rationale \<Rightarrow>
                         (Inr article_result,
                          dict_setitem article_result ''rationale'' rationale st2)))))"

text \<open>Lines 189 to 198, the handler of \<^verbatim>\<open>json.JSONDecodeError\<close>.\<close>

definition parse_failed :: "exn \<Rightarrow> string \<Rightarrow> addr \<Rightarrow> state \<Rightarrow> addr \<times> state" where
  "parse_failed e content a st =
     (let st1 = emit (Log (FailedToParse e)) st;
          st2 = emit (Log (RawResponse content)) st1;
          (article_result, st3) = dict_copy a st2;
          st4 = dict_setitem article_result ''cities'' (PList []) st3;
          st5 = dict_setitem article_result ''rationale'' (PStr ''Error parsing analysis results'') st4;
          st6 = dict_setitem article_result ''error'' (PStr (str_exn e)) st5
      in (article_result, st6))"

text \<open>Lines 200 to 207, the handler of \<^verbatim>\<open>Exception\<close>.\<close>

definition request_failed :: "exn \<Rightarrow> addr \<Rightarrow> state \<Rightarrow> addr \<times> state" where
  "request_failed e a st =
     (let st1 = emit (Log (ApiRequestFailed e)) st;
          (article_result, st2) = dict_copy a st1;
          st3 = dict_setitem article_result ''cities'' (PList []) st2;
          st4 = dict_setitem article_result ''rationale'' (PStr (''Error: '' @ str_exn e)) st3
      in (article_result, st4))"

text \<open>
  Lines 142 to 198, the body of the outer \<^verbatim>\<open>try\<close>: the request, the content of the
  first choice, and the inner \<^verbatim>\<open>try\<close> with its handler. A content that is \<^verbatim>\<open>None\<close>
  makes the test \<^verbatim>\<open>"```json" in content\<close> raise a \<^verbatim>\<open>TypeError\<close>.
\<close>

definition outer_try :: "service \<Rightarrow> prompt \<Rightarrow> addr \<Rightarrow> state \<Rightarrow> (exn + addr) \<times> state" where
  "outer_try svc prompt a st =
     (let st1 = (emit (Request prompt) st)\<lparr>calls := calls st + 1\<rparr> in
      case svc (calls st) prompt of
        Inl e \<Rightarrow> (Inl e, st1)
      | Inr choices \<Rightarrow>
          (case (case choices of [] \<Rightarrow> Some [] | c # _ \<Rightarrow> c) of
             None \<Rightarrow>
               (Inl (TypeError (''argument of type '' @ [CHR 0x27] @ ''NoneType'' @ [CHR 0x27]
                                @ '' is not iterable'')), st1)
           | Some content \<Rightarrow>
               (case inner_try content a st1 of
                  (Inl (JSONDecodeError m), st2) \<Rightarrow>
                    (let (r, st3) = parse_failed (JSONDecodeError m) content a st2 in (Inr r, st3))
                | (Inl e, st2) \<Rightarrow> (Inl e, st2)
                | (Inr r, st2) \<Rightarrow> (Inr r, st2))))"

text \<open>Lines 133 to 207: one call of the undecorated \<^verbatim>\<open>analyze_article\<close>.\<close>

definition analyze_article_once :: "service \<Rightarrow> addr \<Rightarrow> state \<Rightarrow> (exn + addr) \<times> state" where
  "analyze_article_once svc a st =
     (let article = heap st ! a in
      case str_join (dict_get article ''categories'' (PList [])) of
        Inl e \<Rightarrow> (Inl e, st)
      | Inr categories_str \<Rightarrow>
          (let prompt = Prompt (dict_get article ''title'' (PStr []))
                               (dict_get article ''description'' (PStr [])) categories_str
           in case outer_try svc prompt a st of
                (Inl e, st1) \<Rightarrow> (let (r, st2) = request_failed e a st1 in (Inr r, st2))
              | (Inr r, st1) \<Rightarrow> (Inr r, st1)))"

subsection \<open>The retry wrapper\<close>

text \<open>
  tenacity's \<^verbatim>\<open>wait_exponential(multiplier, min, max)\<close> after the attempt with the given
  number, and \<^verbatim>\<open>@retry(stop=stop_after_attempt(3), wait=wait_exponential(multiplier=1,
  min=2, max=10), retry=retry_if_exception_type((Exception)))\<close>: the call is repeated while
  it raises; after the third failed attempt a \<^verbatim>\<open>RetryError\<close> is raised.
\<close>

definition wait_exponential :: "nat \<Rightarrow> nat \<Rightarrow> nat \<Rightarrow> nat \<Rightarrow> nat" where
  "wait_exponential multiplier mn mx attempt_number =
     max (max 0 mn) (min (multiplier * 2 ^ (attempt_number - 1)) mx)"

function retry_call ::
  "nat \<Rightarrow> (state \<Rightarrow> (exn + 'a) \<times> state) \<Rightarrow> state \<Rightarrow> (exn + 'a) \<times> state" where
  "retry_call attempt_number f st =
     (case f st of
        (Inr r, st1) \<Rightarrow> (Inr r, st1)
      | (Inl e, st1) \<Rightarrow>
          if attempt_number \<ge> 3 then (Inl (RetryError e), st1)
          else retry_call (Suc attempt_number) f
                 (emit (Backoff (wait_exponential 1 2 10 attempt_number)) st1))"
  by pat_completeness auto
termination
  by (relation "measure (\<lambda>(n, f, st). 3 - n)") auto

declare retry_call.simps [simp del]

definition analyze_article :: "service \<Rightarrow> addr \<Rightarrow> state \<Rightarrow> (exn + addr) \<times> state" where
  "analyze_article svc a st = retry_call 1 (analyze_article_once svc a) st"

subsection \<open>\<^verbatim>\<open>LocationAnalyzer.analyze_batch\<close> and \<^verbatim>\<open>analyze_locations\<close>\<close>

text \<open>Lines 226 to 232, the body of the \<^verbatim>\<open>try\<close> for the article at index \<open>i\<close> of \<open>n\<close>.\<close>

definition try_article :: "service \<Rightarrow> nat \<Rightarrow> nat \<Rightarrow> addr \<Rightarrow> state \<Rightarrow> (exn + addr) \<times> state" where
  "try_article svc n i a st =
     (case slice50 (dict_get (heap st ! a) ''title'' (PStr ''Untitled'')) of
        Inl e \<Rightarrow> (Inl e, st)
      | Inr t \<Rightarrow>
          (case analyze_article svc a (emit (Log (AnalyzingArticle t)) st) of
             (Inl e, st1) \<Rightarrow> (Inl e, st1)
           | (Inr result, st1) \<Rightarrow>
               (Inr result, if int i < int n - 1 then emit (Sleep 1) st1 else st1)))"

text \<open>Lines 234 to 241, the handler.\<close>

definition analysis_failed :: "exn \<Rightarrow> addr \<Rightarrow> state \<Rightarrow> addr \<times> state" where
  "analysis_failed e a st =
     (let st1 = emit (Log (FailedToAnalyze e)) st;
          (article_copy, st2) = dict_copy a st1;
          st3 = dict_setitem article_copy ''cities'' (PList []) st2;
          st4 = dict_setitem article_copy ''rationale'' (PStr ''Analysis failed'') st3;
          st5 = dict_setitem article_copy ''error'' (PStr (str_exn e)) st4
      in (article_copy, st5))"

fun analyze_batch_loop ::
  "service \<Rightarrow> nat \<Rightarrow> nat \<Rightarrow> addr list \<Rightarrow> addr list \<Rightarrow> state \<Rightarrow> (exn + addr list) \<times> state" where
  "analyze_batch_loop svc n i [] results st = (Inr results, st)"
| "analyze_batch_loop svc n i (a # as) results st =
     (case try_article svc n i a st of
        (Inr result, st1) \<Rightarrow> analyze_batch_loop svc n (Suc i) as (results @ [result]) st1
      | (Inl e, st1) \<Rightarrow>
          (let (article_copy, st2) = analysis_failed e a st1
           in analyze_batch_loop svc n (Suc i) as (results @ [article_copy]) st2))"

definition analyze_batch :: "service \<Rightarrow> addr list \<Rightarrow> state \<Rightarrow> (exn + addr list) \<times> state" where
  "analyze_batch svc articles st = analyze_batch_loop svc (length articles) 0 articles [] st"

definition BATCH_SIZE :: nat where
  "BATCH_SIZE = 3"

text \<open>
  Lines 263 to 273, the loop \<^verbatim>\<open>for i in range(0, len(articles), BATCH_SIZE)\<close>.
  \<open>delay\<close> is \<^verbatim>\<open>INTER_BATCH_DELAY\<close>, a number of seconds that is not negative.
\<close>

function batches_loop ::
  "service \<Rightarrow> nat \<Rightarrow> addr list \<Rightarrow> nat \<Rightarrow> addr list \<Rightarrow> state \<Rightarrow> (exn + addr list) \<times> state" where
  "batches_loop svc delay articles i results st =
     (if i < length articles then
        (let batch = take BATCH_SIZE (drop i articles);
             st1 = emit (Log (ProcessingBatch (i div BATCH_SIZE + 1) (length batch))) st
         in case analyze_batch svc batch st1 of
              (Inl e, st2) \<Rightarrow> (Inl e, st2)
            | (Inr batch_results, st2) \<Rightarrow>
                batches_loop svc delay articles (i + BATCH_SIZE) (results @ batch_results)
                  (if i + BATCH_SIZE < length articles
                   then emit (Sleep delay) (emit (Log (SleepingBeforeNextBatch delay)) st2)
                   else st2))
      else (Inr results, st))"
  by pat_completeness auto
termination
  by (relation "measure (\<lambda>(svc, delay, articles, i, results, st). length articles - i)")
     (auto simp: BATCH_SIZE_def)

declare batches_loop.simps [simp del]

text \<open>
  Lines 246 to 276. The analyzer object is the service it was built around; the
  construction of the client is not part of the model.
\<close>

definition analyze_locations ::
  "service \<Rightarrow> nat \<Rightarrow> addr list \<Rightarrow> state \<Rightarrow> (exn + addr list) \<times> state" where
  "analyze_locations svc delay articles st =
     (case batches_loop svc delay articles 0 [] st of
        (Inl e, st1) \<Rightarrow> (Inl e, st1)
      | (Inr results, st1) \<Rightarrow>
          (Inr results, emit (Log (AnalysisComplete (length results))) st1))"

section \<open>Properties\<close>

subsection \<open>Notions used in the statements\<close>

text \<open>
  The annotation fields, and what it means for an output record to be its input record
  extended by annotation fields only: every other key is bound as it was (to the same
  value, or not at all).
\<close>

definition annotation_keys :: "string set" where
  "annotation_keys = {''cities'', ''rationale'', ''error''}"

definition extends :: "article \<Rightarrow> article \<Rightarrow> bool" where
  "extends out inp \<longleftrightarrow> (\<forall>k. k \<notin> annotation_keys \<longrightarrow> map_of out k = map_of inp k)"

text \<open>
  An annotation is total when \<^verbatim>\<open>cities\<close> is a list of strings and \<^verbatim>\<open>rationale\<close> is a
  string that is not empty. It is passed through when both are what the JSON object of
  some response holds under these keys, with the defaults of lines 178 to 181.
\<close>

definition total_annotation :: "article \<Rightarrow> bool" where
  "total_annotation out \<longleftrightarrow>
     (\<exists>xs. map_of out ''cities'' = Some (PList xs) \<and> (\<forall>x \<in> set xs. \<exists>s. x = PStr s)) \<and>
     (\<exists>s. map_of out ''rationale'' = Some (PStr s) \<and> s \<noteq> [])"

definition passed_through :: "article \<Rightarrow> bool" where
  "passed_through out \<longleftrightarrow>
     (\<exists>content d.
        decode_response content = Inr (PDict d) \<and>
        map_of out ''cities'' = Some (dict_get d ''cities'' (PList [])) \<and>
        map_of out ''rationale'' = Some (dict_get d ''rationale'' (PStr ''No rationale provided'')))"

definition annotated :: "article \<Rightarrow> article \<Rightarrow> bool" where
  "annotated inp out \<longleftrightarrow>
     extends out inp \<and> map_of out ''cities'' \<noteq> None \<and> map_of out ''rationale'' \<noteq> None \<and>
     (total_annotation out \<or> passed_through out)"

text \<open>The degraded record that \<^verbatim>\<open>analyze_batch\<close> substitutes for a call that raised.\<close>

definition degraded :: "exn \<Rightarrow> article \<Rightarrow> article \<Rightarrow> bool" where
  "degraded e inp out \<longleftrightarrow>
     extends out inp \<and>
     map_of out ''cities'' = Some (PList []) \<and>
     map_of out ''rationale'' = Some (PStr ''Analysis failed'') \<and>
     map_of out ''error'' = Some (PStr (str_exn e))"

text \<open>The prompt of an article (lines 134 to 139); building it raises when the categories cannot be joined.\<close>

definition prompt_of :: "article \<Rightarrow> exn + prompt" where
  "prompt_of article =
     (case str_join (dict_get article ''categories'' (PList [])) of
        Inl e \<Rightarrow> Inl e
      | Inr categories_str \<Rightarrow>
          Inr (Prompt (dict_get article ''title'' (PStr []))
                      (dict_get article ''description'' (PStr [])) categories_str))"

text \<open>
  The exception with which the processing of an article in \<^verbatim>\<open>analyze_batch\<close> ends, if
  it does: the slice of the title for the log line raises, or building the prompt raises
  at each of the three attempts and the retry wrapper gives up.
\<close>

definition raises_for :: "article \<Rightarrow> exn option" where
  "raises_for article =
     (case slice50 (dict_get article ''title'' (PStr ''Untitled'')) of
        Inl e \<Rightarrow> Some e
      | Inr t \<Rightarrow>
          (case prompt_of article of
             Inl e \<Rightarrow> Some (RetryError e)
           | Inr p \<Rightarrow> None))"

text \<open>
  What a step does to the store: the dictionaries that existed are unchanged (the store
  only grows), and a returned address is a new dictionary that annotates the article.
\<close>

definition grows :: "state \<Rightarrow> state \<Rightarrow> bool" where
  "grows st st' \<longleftrightarrow> (\<exists>ds. heap st' = heap st @ ds)"

definition article_post :: "addr \<Rightarrow> state \<Rightarrow> (exn + addr) \<times> state \<Rightarrow> bool" where
  "article_post a st res \<longleftrightarrow>
     grows st (snd res) \<and>
     (\<forall>r. fst res = Inr r \<longrightarrow>
        length (heap st) \<le> r \<and> r < length (heap (snd res)) \<and>
        annotated (heap st ! a) (heap (snd res) ! r))"

definition result_post :: "article \<Rightarrow> state \<Rightarrow> addr \<Rightarrow> state \<Rightarrow> bool" where
  "result_post inp st r st' \<longleftrightarrow>
     length (heap st) \<le> r \<and> r < length (heap st') \<and>
     annotated inp (heap st' ! r) \<and>
     (\<forall>e. raises_for inp = Some e \<longrightarrow> degraded e inp (heap st' ! r))"

definition results_post :: "state \<Rightarrow> addr list \<Rightarrow> addr list \<Rightarrow> state \<Rightarrow> bool" where
  "results_post st as rs st' \<longleftrightarrow>
     grows st st' \<and> length rs = length as \<and>
     (\<forall>j < length as. result_post (heap st ! (as ! j)) st (rs ! j) st')"

text \<open>One round of the loop of \<^verbatim>\<open>analyze_batch\<close>: the record appended for an article.\<close>

definition batch_step :: "service \<Rightarrow> nat \<Rightarrow> nat \<Rightarrow> addr \<Rightarrow> state \<Rightarrow> addr \<times> state" where
  "batch_step svc n i a st =
     (case try_article svc n i a st of
        (Inr result, st1) \<Rightarrow> (result, st1)
      | (Inl e, st1) \<Rightarrow> analysis_failed e a st1)"

text \<open>A dictionary with a default for a key that it lacks (what lines 178 to 181 do).\<close>

definition ensure :: "string \<Rightarrow> pyval \<Rightarrow> (string \<times> pyval) list \<Rightarrow> (string \<times> pyval) list" where
  "ensure k v d = (if map_of d k = None then AList.update k v d else d)"

fun is_dict :: "pyval \<Rightarrow> bool" where
  "is_dict (PDict d) = True"
| "is_dict v = False"


text \<open>
  The pacing of a run: what is left of the trace when only the pauses, the start of each
  batch, the start of each article and the failure of an article are kept.
\<close>

fun is_pacing :: "event \<Rightarrow> bool" where
  "is_pacing (Sleep n) = True"
| "is_pacing (Log (ProcessingBatch k n)) = True"
| "is_pacing (Log (AnalyzingArticle t)) = True"
| "is_pacing (Log (FailedToAnalyze e)) = True"
| "is_pacing ev = False"

definition pacing :: "event list \<Rightarrow> event list" where
  "pacing evs = filter is_pacing evs"





subsection \<open>Sample inputs\<close>

text \<open>
  Two articles as the collector builds them: one with a category, and one whose only tag
  has no term, so that its list of categories is \<^verbatim>\<open>[None]\<close>. A run starts from a store
  that holds the input articles. One service always fails; the other always answers with
  one choice that holds the given text.
\<close>

definition london :: article where
  "london = [(''title'', PStr ''London faces flooding''),
             (''description'', PStr ''Heavy rain in UK capital''),
             (''categories'', PList [PStr ''uk''])]"

definition untagged :: article where
  "untagged = [(''title'', PStr ''Storm warning''),
               (''description'', PStr []),
               (''categories'', PList [PNone])]"

definition london_prompt :: prompt where
  "london_prompt = Prompt (PStr ''London faces flooding'') (PStr ''Heavy rain in UK capital'') ''uk''"





definition start :: "article list \<Rightarrow> state" where
  "start ds = \<lparr>heap = ds, calls = 0, trace = []\<rparr>"

definition service_down :: service where
  "service_down n p = Inl (ServiceError ''Connection error.'')"

definition answers :: "string \<Rightarrow> service" where
  "answers text n p = Inr [Some text]"

subsection \<open>Store lemmas\<close>

lemma grows_refl: "grows st st"
  by (simp add: grows_def)

lemma grows_trans: "grows st st1 \<Longrightarrow> grows st1 st2 \<Longrightarrow> grows st st2"
  by (auto simp: grows_def)

lemma grows_nth: "grows st st' \<Longrightarrow> a < length (heap st) \<Longrightarrow> heap st' ! a = heap st ! a"
  by (auto simp: grows_def nth_append)

lemma grows_length: "grows st st' \<Longrightarrow> length (heap st) \<le> length (heap st')"
  by (auto simp: grows_def)

lemma grows_emit: "grows st (emit ev st)"
  by (simp add: grows_def emit_def)

lemma heap_emit: "heap (emit ev st) = heap st"
  by (simp add: emit_def)

lemma extends_update:
  "k \<in> annotation_keys \<Longrightarrow> extends d inp \<Longrightarrow> extends (AList.update k v d) inp"
  by (auto simp: extends_def update_conv')

lemma extends_refl: "extends d d"
  by (simp add: extends_def)

lemma parse_failed_eq:
  "parse_failed e content a st =
     (length (heap st),
      st\<lparr>heap := heap st @
           [AList.update ''error'' (PStr (str_exn e))
             (AList.update ''rationale'' (PStr ''Error parsing analysis results'')
               (AList.update ''cities'' (PList []) (heap st ! a)))],
         trace := trace st @ [Log (FailedToParse e), Log (RawResponse content)]\<rparr>)"
  by (simp add: parse_failed_def dict_copy_def dict_setitem_def emit_def Let_def)

lemma request_failed_eq:
  "request_failed e a st =
     (length (heap st),
      st\<lparr>heap := heap st @
           [AList.update ''rationale'' (PStr (''Error: '' @ str_exn e))
             (AList.update ''cities'' (PList []) (heap st ! a))],
         trace := trace st @ [Log (ApiRequestFailed e)]\<rparr>)"
  by (simp add: request_failed_def dict_copy_def dict_setitem_def emit_def Let_def)

lemma analysis_failed_eq:
  "analysis_failed e a st =
     (length (heap st),
      st\<lparr>heap := heap st @
           [AList.update ''error'' (PStr (str_exn e))
             (AList.update ''rationale'' (PStr ''Analysis failed'')
               (AList.update ''cities'' (PList []) (heap st ! a)))],
         trace := trace st @ [Log (FailedToAnalyze e)]\<rparr>)"
  by (simp add: analysis_failed_def dict_copy_def dict_setitem_def emit_def Let_def)

subsection \<open>One article\<close>



lemma map_of_ensure:
  "map_of (ensure k v d) k' = (if k' = k then Some (dict_get d k v) else map_of d k')"
  by (auto simp: ensure_def dict_get_def update_conv')

lemma default_fields_dict:
  "default_fields (PDict d) =
     Inr (PDict (ensure ''rationale'' (PStr ''No rationale provided'') (ensure ''cities'' (PList []) d)))"
  by (cases "map_of d ''cities''"; cases "map_of d ''rationale''")
     (simp_all add: default_fields_def ensure_def update_conv')

lemma dict_get_ensure:
  "dict_get (ensure k v d) k' dflt = (if k' = k then dict_get d k v else dict_get d k' dflt)"
  by (simp add: dict_get_def map_of_ensure)

lemma default_fields_other:
  "\<not> is_dict v \<Longrightarrow> (\<exists>m. default_fields v = Inl (TypeError m)) \<or> default_fields v = Inr v"
  by (cases v) (auto simp: default_fields_def)

lemma py_getitem_other: "\<not> is_dict v \<Longrightarrow> \<exists>m. py_getitem v k = Inl (TypeError m)"
  by (cases v) auto

lemma inner_try_error: "decode_response c = Inl e \<Longrightarrow> inner_try c a st = (Inl e, st)"
  by (simp add: inner_try_def)

lemma inner_try_dict:
  assumes "decode_response c = Inr (PDict d)"
  shows "inner_try c a st =
     (Inr (length (heap st)),
      st\<lparr>heap := heap st @
           [AList.update ''rationale'' (dict_get d ''rationale'' (PStr ''No rationale provided''))
             (AList.update ''cities'' (dict_get d ''cities'' (PList [])) (heap st ! a))]\<rparr>)"
  using assms
  by (simp add: inner_try_def default_fields_dict map_of_ensure dict_get_ensure dict_copy_def
      dict_setitem_def)

lemma inner_try_other:
  assumes "decode_response c = Inr v" "\<not> is_dict v"
  shows "\<exists>m st'. inner_try c a st = (Inl (TypeError m), st') \<and> grows st st'
           \<and> calls st' = calls st \<and> trace st' = trace st"
proof -
  from default_fields_other [OF assms(2)] show ?thesis
  proof
    assume "\<exists>m. default_fields v = Inl (TypeError m)"
    then show ?thesis using assms(1) by (auto simp: inner_try_def grows_refl)
  next
    assume d: "default_fields v = Inr v"
    from py_getitem_other [OF assms(2)] obtain m where "py_getitem v ''cities'' = Inl (TypeError m)"
      by blast
    with d assms(1) show ?thesis
      by (auto simp: inner_try_def dict_copy_def grows_def)
  qed
qed


lemma annotated_total:
  "s \<noteq> [] \<Longrightarrow>
   annotated inp (AList.update ''rationale'' (PStr s) (AList.update ''cities'' (PList []) inp))"
  by (simp add: annotated_def extends_def update_conv' annotation_keys_def total_annotation_def)

lemma annotated_passed:
  "decode_response c = Inr (PDict d) \<Longrightarrow>
   annotated inp
     (AList.update ''rationale'' (dict_get d ''rationale'' (PStr ''No rationale provided''))
       (AList.update ''cities'' (dict_get d ''cities'' (PList [])) inp))"
  by (auto simp: annotated_def extends_def update_conv' annotation_keys_def passed_through_def)

lemma annotated_error:
  "annotated inp d \<Longrightarrow> annotated inp (AList.update ''error'' v d)"
  by (auto simp: annotated_def extends_update update_conv' annotation_keys_def
      total_annotation_def passed_through_def)

lemma inner_try_post: "article_post a st (inner_try c a st)"
proof (cases "decode_response c")
  case (Inl e)
  then show ?thesis by (simp add: inner_try_error article_post_def grows_refl)
next
  case (Inr v)
  show ?thesis
  proof (cases v)
    case (PDict d)
    with Inr show ?thesis
      by (simp add: inner_try_dict article_post_def grows_def annotated_passed)
  qed (use inner_try_other [OF Inr, of a st] in \<open>auto simp: article_post_def\<close>)
qed

lemma outer_try_post:
  assumes "a < length (heap st)"
  shows "article_post a st (outer_try svc p a st)"
proof -
  let ?st1 = "(emit (Request p) st)\<lparr>calls := calls st + 1\<rparr>"
  have h1: "heap ?st1 = heap st" by (simp add: emit_def)
  have post: "article_post a st (inner_try c a ?st1)" for c
    using inner_try_post [of a ?st1 c] by (simp add: article_post_def grows_def heap_emit)
  show ?thesis
  proof (cases "svc (calls st) p")
    case (Inl e)
    then show ?thesis by (simp add: outer_try_def Let_def article_post_def grows_def heap_emit)
  next
    case (Inr choices)
    show ?thesis
    proof (cases "case choices of [] \<Rightarrow> Some [] | c # _ \<Rightarrow> c")
      case None
      with Inr show ?thesis by (simp add: outer_try_def Let_def article_post_def grows_def heap_emit)
    next
      case (Some c)
      obtain res st2 where it: "inner_try c a ?st1 = (res, st2)" by (cases "inner_try c a ?st1")
      from post [of c] it have g: "grows st st2" by (simp add: article_post_def)
      show ?thesis
      proof (cases res)
        case (Inr r)
        with Some \<open>svc (calls st) p = Inr choices\<close> it post [of c] show ?thesis
          by (simp add: outer_try_def Let_def)
      next
        case (Inl e)
        have nth: "heap st2 ! a = heap st ! a" using grows_nth [OF g assms] .
        from g obtain ds where ds: "heap st2 = heap st @ ds" by (auto simp: grows_def)
        show ?thesis
        proof (cases e)
          case (JSONDecodeError m)
          with Inl Some \<open>svc (calls st) p = Inr choices\<close> it show ?thesis
            by (simp add: outer_try_def Let_def parse_failed_eq article_post_def grows_def ds
                nth [unfolded ds] annotated_total annotated_error)
        qed (use Inl Some \<open>svc (calls st) p = Inr choices\<close> it g in
              \<open>simp_all add: outer_try_def Let_def article_post_def\<close>)
      qed
    qed
  qed
qed

lemma article_post_trans:
  assumes "grows st st1" "a < length (heap st)" "article_post a st1 res"
  shows "article_post a st res"
  using assms grows_nth [OF assms(1,2)] grows_length [OF assms(1)]
  by (auto simp: article_post_def intro: grows_trans)

lemma analyze_article_once_post:
  assumes "a < length (heap st)"
  shows "article_post a st (analyze_article_once svc a st)"
proof (cases "prompt_of (heap st ! a)")
  case (Inl e)
  then show ?thesis
    by (auto simp: analyze_article_once_def prompt_of_def Let_def article_post_def grows_refl
        split: sum.splits)
next
  case (Inr p)
  obtain res st1 where ot: "outer_try svc p a st = (res, st1)" by (cases "outer_try svc p a st")
  from outer_try_post [OF assms, of svc p] ot have g: "grows st st1" and
    r: "\<And>r. res = Inr r \<Longrightarrow> length (heap st) \<le> r \<and> r < length (heap st1) \<and> annotated (heap st ! a) (heap st1 ! r)"
    by (auto simp: article_post_def)
  from g obtain ds where ds: "heap st1 = heap st @ ds" by (auto simp: grows_def)
  have nth: "(heap st @ ds) ! a = heap st ! a" using assms by (simp add: nth_append)
  from Inr ot show ?thesis
    using r
    by (cases res)
       (auto simp: analyze_article_once_def prompt_of_def Let_def article_post_def
        request_failed_eq grows_def ds nth annotated_total split: sum.splits)
qed

lemma retry_call_post:
  assumes "\<And>st'. grows st st' \<Longrightarrow> article_post a st' (f st')" "a < length (heap st)"
  shows "article_post a st (retry_call n f st)"
  using assms
proof (induction n f st rule: retry_call.induct)
  case (1 n f st)
  obtain res st1 where f: "f st = (res, st1)" by (cases "f st")
  from "1.prems"(1) [OF grows_refl] f have p: "article_post a st (res, st1)" by simp
  then have g: "grows st st1" by (simp add: article_post_def)
  show ?case
  proof (cases res)
    case (Inr r)
    with f p show ?thesis by (simp add: retry_call.simps [of n f st])
  next
    case (Inl e)
    show ?thesis
    proof (cases "3 \<le> n")
      case True
      with Inl f g show ?thesis by (simp add: retry_call.simps [of n f st] article_post_def)
    next
      case False
      let ?st2 = "emit (Backoff (wait_exponential 1 2 10 n)) st1"
      have g2: "grows st ?st2" using g grows_emit grows_trans by blast
      have "article_post a ?st2 (retry_call (Suc n) f ?st2)"
      proof (rule "1.IH" [OF f [symmetric] Inl False])
        show "a < length (heap ?st2)" using "1.prems"(2) grows_length [OF g2] by simp
        fix st' assume "grows ?st2 st'"
        then have "grows st st'" using g2 grows_trans by blast
        then show "article_post a st' (f st')" by (rule "1.prems"(1))
      qed
      then have "article_post a st (retry_call (Suc n) f ?st2)"
        using article_post_trans [OF g2 "1.prems"(2)] by blast
      with Inl f False show ?thesis by (simp add: retry_call.simps [of n f st])
    qed
  qed
qed

lemma once_raises:
  "prompt_of (heap st ! a) = Inl e \<Longrightarrow> analyze_article_once svc a st = (Inl e, st)"
  by (auto simp: analyze_article_once_def prompt_of_def Let_def split: sum.splits)

lemma once_returns:
  "prompt_of (heap st ! a) = Inr p \<Longrightarrow>
   \<exists>r st'. analyze_article_once svc a st = (Inr r, st')"
  by (auto simp: analyze_article_once_def prompt_of_def Let_def request_failed_eq
      split: sum.splits prod.splits)

lemma retry_call_returns:
  "f st = (Inr r, st') \<Longrightarrow> retry_call n f st = (Inr r, st')"
  by (simp add: retry_call.simps [of n f st])

lemma retry_call_all_fail:
  assumes "\<And>s :: state. heap s = heap st \<Longrightarrow> f s = (Inl e, s)"
  shows "retry_call n f st =
           (Inl (RetryError e),
            st\<lparr>trace := trace st @ map (\<lambda>k. Backoff (wait_exponential 1 2 10 k)) [n..<3]\<rparr>)"
  using assms
proof (induction n f st rule: retry_call.induct)
  case (1 n f st)
  have f: "f st = (Inl e, st)" using "1.prems" by simp
  show ?case
  proof (cases "3 \<le> n")
    case True
    with f show ?thesis by (simp add: retry_call.simps [of n f st])
  next
    case False
    let ?st2 = "emit (Backoff (wait_exponential 1 2 10 n)) st"
    have "retry_call (Suc n) f ?st2 =
           (Inl (RetryError e),
            ?st2\<lparr>trace := trace ?st2 @ map (\<lambda>k. Backoff (wait_exponential 1 2 10 k)) [Suc n..<3]\<rparr>)"
    proof (rule "1.IH" [OF f [symmetric] refl False])
      fix s :: state assume "heap s = heap ?st2"
      then show "f s = (Inl e, s)" using "1.prems" by (simp add: heap_emit)
    qed
    moreover have "[n..<3] = n # [Suc n..<3]" using False by (simp add: upt_conv_Cons)
    ultimately show ?thesis using f False
      by (simp add: retry_call.simps [of n f st] emit_def)
  qed
qed

lemma analyze_article_raises:
  assumes "prompt_of (heap st ! a) = Inl e"
  shows "analyze_article svc a st =
           (Inl (RetryError e),
            st\<lparr>trace := trace st @ [Backoff (wait_exponential 1 2 10 1), Backoff (wait_exponential 1 2 10 2)]\<rparr>)"
proof -
  have "[1..<3] = [1, 2::nat]" by (simp add: upt_conv_Cons)
  moreover have "analyze_article_once svc a s = (Inl e, s)" if "heap s = heap st" for s :: state
    using once_raises [of s a e svc] assms that by simp
  ultimately show ?thesis
    unfolding analyze_article_def
    using retry_call_all_fail [of st "analyze_article_once svc a" e 1] by simp
qed

lemma analyze_article_returns:
  assumes "prompt_of (heap st ! a) = Inr p"
  shows "analyze_article svc a st = analyze_article_once svc a st"
    and "\<exists>r st'. analyze_article svc a st = (Inr r, st')"
proof -
  from once_returns [OF assms, of svc] obtain r st' where
    o: "analyze_article_once svc a st = (Inr r, st')" by blast
  then show "analyze_article svc a st = analyze_article_once svc a st"
    by (simp add: analyze_article_def retry_call_returns)
  with o show "\<exists>r st'. analyze_article svc a st = (Inr r, st')" by simp
qed

lemma analyze_article_post:
  assumes "a < length (heap st)"
  shows "article_post a st (analyze_article svc a st)"
  unfolding analyze_article_def
proof (rule retry_call_post [OF _ assms])
  fix st' assume g: "grows st st'"
  have "a < length (heap st')" using assms grows_length [OF g] by simp
  from analyze_article_once_post [OF this, of svc]
  show "article_post a st' (analyze_article_once svc a st')" .
qed

subsection \<open>Batches\<close>

lemma degraded_intro:
  "degraded e inp
     (AList.update ''error'' (PStr (str_exn e))
       (AList.update ''rationale'' (PStr ''Analysis failed'')
         (AList.update ''cities'' (PList []) inp)))"
  by (simp add: degraded_def extends_def update_conv' annotation_keys_def)

lemma degraded_annotated: "degraded e inp out \<Longrightarrow> annotated inp out"
  by (simp add: degraded_def annotated_def total_annotation_def)

lemma failed_post:
  assumes "grows st st1" "a < length (heap st)"
  shows "\<exists>r st2. analysis_failed e a st1 = (r, st2) \<and> grows st st2 \<and>
           length (heap st) \<le> r \<and> r < length (heap st2) \<and>
           degraded e (heap st ! a) (heap st2 ! r)"
proof -
  from assms(1) obtain ds where ds: "heap st1 = heap st @ ds" by (auto simp: grows_def)
  have nth: "(heap st @ ds) ! a = heap st ! a" using assms(2) by (simp add: nth_append)
  show ?thesis
    by (simp add: analysis_failed_eq grows_def ds nth degraded_intro
        nth_append_length [of "heap st @ ds", simplified])
qed

lemma batch_step_post:
  assumes "a < length (heap st)" "batch_step svc n i a st = (r, st2)"
  shows "grows st st2 \<and> result_post (heap st ! a) st r st2"
proof (cases "slice50 (dict_get (heap st ! a) ''title'' (PStr ''Untitled''))")
  case (Inl e)
  then have rf: "raises_for (heap st ! a) = Some e" by (simp add: raises_for_def)
  from Inl have "try_article svc n i a st = (Inl e, st)" by (simp add: try_article_def)
  with assms(2) have "analysis_failed e a st = (r, st2)" by (simp add: batch_step_def)
  with failed_post [OF grows_refl assms(1), of e] rf show ?thesis
    by (auto simp: result_post_def degraded_annotated)
next
  case (Inr t)
  let ?st0 = "emit (Log (AnalyzingArticle t)) st"
  have g0: "grows st ?st0" by (rule grows_emit)
  have h0: "heap ?st0 = heap st" by (rule heap_emit)
  show ?thesis
  proof (cases "prompt_of (heap st ! a)")
    case (Inl e)
    then have rf: "raises_for (heap st ! a) = Some (RetryError e)"
      using Inr by (simp add: raises_for_def)
    from Inl have "prompt_of (heap ?st0 ! a) = Inl e" by (simp add: h0)
    from analyze_article_raises [OF this, of svc] obtain st1 where
      aa: "analyze_article svc a ?st0 = (Inl (RetryError e), st1)" and h1: "heap st1 = heap st"
      by (simp add: h0)
    have g1: "grows st st1" by (simp add: grows_def h1)
    from aa Inr have "try_article svc n i a st = (Inl (RetryError e), st1)"
      by (simp add: try_article_def)
    with assms(2) have "analysis_failed (RetryError e) a st1 = (r, st2)"
      by (simp add: batch_step_def)
    with failed_post [OF g1 assms(1), of "RetryError e"] rf show ?thesis
      by (auto simp: result_post_def degraded_annotated)
  next
    case (Inr p)
    then have rf: "raises_for (heap st ! a) = None"
      using \<open>slice50 _ = Inr t\<close> by (simp add: raises_for_def)
    from Inr have "prompt_of (heap ?st0 ! a) = Inr p" by (simp add: h0)
    from analyze_article_returns(2) [OF this, of svc] obtain r' st1 where
      aa: "analyze_article svc a ?st0 = (Inr r', st1)" by blast
    have "a < length (heap ?st0)" using assms(1) by (simp add: h0)
    from analyze_article_post [OF this, of svc] aa
    have p: "grows st st1" "length (heap st) \<le> r'" "r' < length (heap st1)"
      "annotated (heap st ! a) (heap st1 ! r')"
      by (simp_all add: article_post_def h0 grows_def)
    from aa \<open>slice50 _ = Inr t\<close> have
      "try_article svc n i a st = (Inr r', if int i < int n - 1 then emit (Sleep 1) st1 else st1)"
      by (simp add: try_article_def)
    with assms(2) have "r = r'" "st2 = (if int i < int n - 1 then emit (Sleep 1) st1 else st1)"
      by (simp_all add: batch_step_def)
    with p rf show ?thesis
      by (auto simp: result_post_def heap_emit grows_def)
  qed
qed

lemma analyze_batch_loop_step:
  "analyze_batch_loop svc n i (a # as) results st =
     (case batch_step svc n i a st of
        (r, st2) \<Rightarrow> analyze_batch_loop svc n (Suc i) as (results @ [r]) st2)"
  by (simp add: batch_step_def split: prod.splits sum.splits)

lemma result_post_mono:
  assumes "result_post inp st r st1" "grows st1 st2" "grows st0 st"
  shows "result_post inp st0 r st2"
proof -
  from assms(1) have r: "r < length (heap st1)" by (simp add: result_post_def)
  from grows_nth [OF assms(2) r] grows_length [OF assms(2)] grows_length [OF assms(3)] assms(1) r
  show ?thesis by (auto simp: result_post_def)
qed

lemma analyze_batch_loop_post:
  assumes "\<forall>a \<in> set as. a < length (heap st)"
  shows "\<exists>rs st'. analyze_batch_loop svc n i as results st = (Inr (results @ rs), st')
           \<and> results_post st as rs st'"
  using assms
proof (induction as arbitrary: i results st)
  case Nil
  show ?case by (simp add: results_post_def grows_refl)
next
  case (Cons a as)
  obtain r st1 where bs: "batch_step svc n i a st = (r, st1)" by (cases "batch_step svc n i a st")
  from Cons.prems have a: "a < length (heap st)" by simp
  from batch_step_post [OF a bs] have g: "grows st st1"
    and rp: "result_post (heap st ! a) st r st1" by simp_all
  have "\<forall>b \<in> set as. b < length (heap st1)"
    using Cons.prems grows_length [OF g] by auto
  from Cons.IH [OF this, of "Suc i" "results @ [r]"] obtain rs st' where
    l: "analyze_batch_loop svc n (Suc i) as (results @ [r]) st1 = (Inr (results @ [r] @ rs), st')"
    and p: "results_post st1 as rs st'" by auto
  from p have g1: "grows st1 st'" and len: "length rs = length as"
    and each: "\<And>j. j < length as \<Longrightarrow> result_post (heap st1 ! (as ! j)) st1 (rs ! j) st'"
    by (simp_all add: results_post_def)
  have "results_post st (a # as) (r # rs) st'"
    unfolding results_post_def
  proof (intro conjI allI impI)
    show "grows st st'" using g g1 by (rule grows_trans)
    show "length (r # rs) = length (a # as)" using len by simp
    fix j assume j: "j < length (a # as)"
    show "result_post (heap st ! ((a # as) ! j)) st ((r # rs) ! j) st'"
    proof (cases j)
      case 0
      with result_post_mono [OF rp g1 grows_refl] show ?thesis by simp
    next
      case (Suc k)
      with j have k: "k < length as" by simp
      then have "as ! k < length (heap st)" using Cons.prems by simp
      from grows_nth [OF g this] each [OF k] have "result_post (heap st ! (as ! k)) st1 (rs ! k) st'"
        by simp
      from result_post_mono [OF this grows_refl g] Suc show ?thesis by simp
    qed
  qed
  moreover have "analyze_batch_loop svc n i (a # as) results st = (Inr (results @ (r # rs)), st')"
    using l by (simp add: analyze_batch_loop_step bs del: analyze_batch_loop.simps)
  ultimately show ?case by blast
qed

lemma analyze_batch_post:
  assumes "\<forall>a \<in> set as. a < length (heap st)"
  shows "\<exists>rs st'. analyze_batch svc as st = (Inr rs, st') \<and> results_post st as rs st'"
  using analyze_batch_loop_post [OF assms, of svc "length as" 0 "[]"]
  by (simp add: analyze_batch_def)

lemma results_post_append:
  assumes "results_post st xs rs st1" "results_post st1 ys rs' st2"
    "\<forall>a \<in> set ys. a < length (heap st)"
  shows "results_post st (xs @ ys) (rs @ rs') st2"
proof -
  from assms(1) have g: "grows st st1" and len: "length rs = length xs"
    and e1: "\<And>j. j < length xs \<Longrightarrow> result_post (heap st ! (xs ! j)) st (rs ! j) st1"
    by (simp_all add: results_post_def)
  from assms(2) have g1: "grows st1 st2" and len': "length rs' = length ys"
    and e2: "\<And>j. j < length ys \<Longrightarrow> result_post (heap st1 ! (ys ! j)) st1 (rs' ! j) st2"
    by (simp_all add: results_post_def)
  show ?thesis
    unfolding results_post_def
  proof (intro conjI allI impI)
    show "grows st st2" using g g1 by (rule grows_trans)
    show "length (rs @ rs') = length (xs @ ys)" using len len' by simp
    fix j assume j: "j < length (xs @ ys)"
    show "result_post (heap st ! ((xs @ ys) ! j)) st ((rs @ rs') ! j) st2"
    proof (cases "j < length xs")
      case True
      with result_post_mono [OF e1 [OF True] g1 grows_refl] len show ?thesis
        by (simp add: nth_append)
    next
      case False
      with j have k: "j - length xs < length ys" by simp
      then have "ys ! (j - length xs) < length (heap st)" using assms(3) by simp
      from grows_nth [OF g this] e2 [OF k]
      have "result_post (heap st ! (ys ! (j - length xs))) st1 (rs' ! (j - length xs)) st2"
        by simp
      from result_post_mono [OF this grows_refl g] False len show ?thesis
        by (simp add: nth_append)
    qed
  qed
qed

lemma results_post_heap:
  assumes "results_post st as rs st'" "heap st0 = heap st" "heap st'' = heap st'"
  shows "results_post st0 as rs st''"
  using assms by (simp add: results_post_def result_post_def grows_def)

lemma batches_loop_post:
  assumes "\<forall>a \<in> set articles. a < length (heap st)"
  shows "\<exists>rs st'. batches_loop svc delay articles i results st = (Inr (results @ rs), st')
           \<and> results_post st (drop i articles) rs st'"
  using assms
proof (induction svc delay articles i results st rule: batches_loop.induct)
  case (1 svc delay articles i results st)
  show ?case
  proof (cases "i < length articles")
    case False
    then show ?thesis
      by (simp add: batches_loop.simps [of svc delay articles i results st]
          results_post_def grows_refl)
  next
    case True
    let ?batch = "take BATCH_SIZE (drop i articles)"
    let ?st1 = "emit (Log (ProcessingBatch (i div BATCH_SIZE + 1) (length ?batch))) st"
    have v1: "\<forall>a \<in> set ?batch. a < length (heap ?st1)"
      using "1.prems" by (auto simp: heap_emit dest!: in_set_takeD in_set_dropD)
    from analyze_batch_post [OF v1, of svc] obtain brs st2 where
      ab: "analyze_batch svc ?batch ?st1 = (Inr brs, st2)"
      and bp: "results_post ?st1 ?batch brs st2" by blast
    let ?st3 = "if i + BATCH_SIZE < length articles
                then emit (Sleep delay) (emit (Log (SleepingBeforeNextBatch delay)) st2) else st2"
    have h3: "heap ?st3 = heap st2" by (simp add: heap_emit)
    have bp': "results_post st ?batch brs ?st3"
      by (rule results_post_heap [OF bp]) (simp_all add: heap_emit)
    then have g3: "grows st ?st3" by (simp add: results_post_def)
    have v3: "\<forall>a \<in> set articles. a < length (heap ?st3)"
      using "1.prems" grows_length [OF g3] by auto
    from "1.IH" [OF True refl refl ab [symmetric] refl v3] obtain rs st' where
      l: "batches_loop svc delay articles (i + BATCH_SIZE) (results @ brs) ?st3
            = (Inr ((results @ brs) @ rs), st')"
      and p: "results_post ?st3 (drop (i + BATCH_SIZE) articles) rs st'" by blast
    have "\<forall>a \<in> set (drop (i + BATCH_SIZE) articles). a < length (heap st)"
      using "1.prems" by (auto dest!: in_set_dropD)
    from results_post_append [OF bp' p this]
    have "results_post st (drop i articles) (brs @ rs) st'"
      by (simp add: add.commute [of i] drop_drop [symmetric] del: drop_drop)
    moreover have "batches_loop svc delay articles i results st = (Inr (results @ (brs @ rs)), st')"
      using True ab l by (simp add: batches_loop.simps [of svc delay articles i results st] Let_def)
    ultimately show ?thesis by blast
  qed
qed

lemma analyze_locations_post:
  assumes "\<forall>a \<in> set articles. a < length (heap st)"
  shows "\<exists>rs st'. analyze_locations svc delay articles st = (Inr rs, st')
           \<and> results_post st articles rs st'"
proof -
  from batches_loop_post [OF assms, of svc delay 0 "[]"] obtain rs st1 where
    l: "batches_loop svc delay articles 0 [] st = (Inr rs, st1)"
    and p: "results_post st articles rs st1" by auto
  have "results_post st articles rs (emit (Log (AnalysisComplete (length rs))) st1)"
    by (rule results_post_heap [OF p]) (simp_all add: heap_emit)
  with l show ?thesis by (simp add: analyze_locations_def)
qed


subsection \<open>What one call returns\<close>

lemma analyze_article_eq:
  assumes "prompt_of (heap st ! a) = Inr p"
  shows "analyze_article svc a st =
           (case outer_try svc p a st of
              (Inl e, st1) \<Rightarrow> (let (r, st2) = request_failed e a st1 in (Inr r, st2))
            | (Inr r, st1) \<Rightarrow> (Inr r, st1))"
  using assms analyze_article_returns(1) [OF assms, of svc]
  by (auto simp: analyze_article_once_def prompt_of_def Let_def split: sum.splits)

lemma analyze_article_service_failure:
  assumes "prompt_of (heap st ! a) = Inr p" "svc (calls st) p = Inl e"
  shows "analyze_article svc a st =
           (Inr (length (heap st)),
            st\<lparr>heap := heap st @
                  [AList.update ''rationale'' (PStr (''Error: '' @ str_exn e))
                    (AList.update ''cities'' (PList []) (heap st ! a))],
               calls := calls st + 1,
               trace := trace st @ [Request p, Log (ApiRequestFailed e)]\<rparr>)"
  using assms
  by (simp add: analyze_article_eq outer_try_def Let_def request_failed_eq emit_def)




subsection \<open>The extracted text\<close>








subsection \<open>The pacing of a run\<close>

lemma pacing_append: "pacing (xs @ ys) = pacing xs @ pacing ys"
  by (simp add: pacing_def)








subsection \<open>Sample runs\<close>


lemma untagged_raises:
  "raises_for untagged = Some (RetryError (TypeError ''sequence item 0: expected str instance, NoneType found''))"
  by code_simp

lemma london_prompt_eq: "prompt_of london = Inr london_prompt"
  by code_simp












subsection \<open>The claims\<close>



text \<open>
  C2. \<^verbatim>\<open>analyze_locations\<close> returns exactly as many records as it was given articles,
  and the record at each position is the article at that position, extended: nothing is
  dropped, reordered or duplicated, whatever the outcome for each article.
\<close>
theorem analyze_locations_order:
  assumes "\<forall>a \<in> set articles. a < length (heap st)"
  shows "\<exists>results st'.
           analyze_locations svc delay articles st = (Inr results, st') \<and>
           length results = length articles \<and>
           (\<forall>j < length articles.
              extends (heap st' ! (results ! j)) (heap st ! (articles ! j)))"
  using analyze_locations_post [OF assms, of svc delay]
  by (auto simp: results_post_def result_post_def annotated_def)

theorem analyze_locations_order_witness:
  "0 < length (heap (start [london, untagged])) \<and>
   1 < length (heap (start [london, untagged])) \<and>
   (\<exists>results st'.
      analyze_locations service_down 2 [0, 1] (start [london, untagged]) = (Inr results, st') \<and>
      length results = 2 \<and>
      extends (heap st' ! (results ! 0)) london \<and>
      extends (heap st' ! (results ! 1)) untagged)"
proof -
  let ?st = "start [london, untagged]"
  have v: "\<forall>a \<in> set [0, 1]. a < length (heap ?st)" by (simp add: start_def)
  from analyze_locations_order [OF v, of service_down 2] obtain results st' where
    l: "analyze_locations service_down 2 [0, 1] ?st = (Inr results, st')"
    and n: "length results = length [0::nat, 1]"
    and e: "\<And>j. j < length [0::nat, 1] \<Longrightarrow> extends (heap st' ! (results ! j)) (heap ?st ! ([0, 1] ! j))"
    by blast
  from e [of 0] e [of 1] have "extends (heap st' ! (results ! 0)) london"
    "extends (heap st' ! (results ! 1)) untagged" by (simp_all add: start_def)
  with v l n show ?thesis by auto
qed

text \<open>
  C9. No dictionary that existed before the run is changed by it, the input articles
  among them; every returned record is a new dictionary, and each of its keys other than
  \<^verbatim>\<open>cities\<close>, \<^verbatim>\<open>rationale\<close> and \<^verbatim>\<open>error\<close> is bound exactly as in the input article.
\<close>
theorem analyze_locations_frame:
  assumes "\<forall>a \<in> set articles. a < length (heap st)"
  shows "\<exists>results st'.
           analyze_locations svc delay articles st = (Inr results, st') \<and>
           (\<forall>a < length (heap st). heap st' ! a = heap st ! a) \<and>
           (\<forall>j < length articles.
              results ! j \<notin> set articles \<and>
              (\<forall>k. k \<notin> {''cities'', ''rationale'', ''error''} \<longrightarrow>
                 map_of (heap st' ! (results ! j)) k = map_of (heap st ! (articles ! j)) k))"
proof -
  from analyze_locations_post [OF assms, of svc delay] obtain rs st' where
    l: "analyze_locations svc delay articles st = (Inr rs, st')"
    and p: "results_post st articles rs st'" by blast
  from p have g: "grows st st'" by (simp add: results_post_def)
  have "\<forall>a < length (heap st). heap st' ! a = heap st ! a"
    using grows_nth [OF g] by simp
  moreover have "rs ! j \<notin> set articles" if "j < length articles" for j
    using p that assms by (fastforce simp: results_post_def result_post_def)
  moreover have "map_of (heap st' ! (rs ! j)) k = map_of (heap st ! (articles ! j)) k"
    if "j < length articles" "k \<notin> {''cities'', ''rationale'', ''error''}" for j k
    using p that
    by (simp add: results_post_def result_post_def annotated_def extends_def annotation_keys_def)
  ultimately show ?thesis using l by blast
qed

theorem analyze_locations_frame_witness:
  "0 < length (heap (start [london, untagged])) \<and>
   1 < length (heap (start [london, untagged])) \<and>
   (\<exists>results st'.
      analyze_locations (answers ''no json here'') 2 [0, 1] (start [london, untagged])
        = (Inr results, st') \<and>
      heap st' ! 0 = london \<and> heap st' ! 1 = untagged \<and>
      results ! 0 \<notin> {0, 1} \<and> results ! 1 \<notin> {0, 1} \<and>
      map_of (heap st' ! (results ! 0)) ''title'' = Some (PStr ''London faces flooding'') \<and>
      map_of (heap st' ! (results ! 1)) ''categories'' = Some (PList [PNone]))"
proof -
  let ?st = "start [london, untagged]"
  have v: "\<forall>a \<in> set [0, 1]. a < length (heap ?st)" by (simp add: start_def)
  from analyze_locations_frame [OF v, of "answers ''no json here''" 2] obtain results st' where
    l: "analyze_locations (answers ''no json here'') 2 [0, 1] ?st = (Inr results, st')"
    and f: "\<And>a. a < length (heap ?st) \<Longrightarrow> heap st' ! a = heap ?st ! a"
    and e: "\<And>j. j < length [0::nat, 1] \<Longrightarrow> results ! j \<notin> set [0, 1] \<and>
              (\<forall>k. k \<notin> {''cities'', ''rationale'', ''error''} \<longrightarrow>
                 map_of (heap st' ! (results ! j)) k = map_of (heap ?st ! ([0, 1] ! j)) k)"
    by blast
  from f [of 0] f [of 1] have "heap st' ! 0 = london" "heap st' ! 1 = untagged"
    by (simp_all add: start_def)
  moreover from e [of 0] e [of 1] have "results ! 0 \<notin> {0, 1}" "results ! 1 \<notin> {0, 1}"
    "map_of (heap st' ! (results ! 0)) ''title'' = Some (PStr ''London faces flooding'')"
    "map_of (heap st' ! (results ! 1)) ''categories'' = Some (PList [PNone])"
    by (simp_all add: start_def london_def untagged_def)
  ultimately show ?thesis using v l by auto
qed





text \<open>
  C4. With a service that raises, the call returns a record with \<^verbatim>\<open>cities = []\<close> and
  \<^verbatim>\<open>rationale = "Error: Connection error."\<close>, but with no \<^verbatim>\<open>error\<close> field: the handler
  of lines 200 to 207 does not set it, unlike the two other handlers.
\<close>
theorem service_failure_sets_no_error_field:
  "fst (analyze_article service_down 0 (start [london])) = Inr 1 \<and>
   map_of (heap (snd (analyze_article service_down 0 (start [london]))) ! 1) ''cities''
     = Some (PList []) \<and>
   map_of (heap (snd (analyze_article service_down 0 (start [london]))) ! 1) ''rationale''
     = Some (PStr ''Error: Connection error.'') \<and>
   map_of (heap (snd (analyze_article service_down 0 (start [london]))) ! 1) ''error'' = None"
proof -
  have h1: "prompt_of (heap (start [london]) ! 0) = Inr london_prompt"
    by (simp add: start_def london_prompt_eq)
  have h2: "service_down (calls (start [london])) london_prompt = Inl (ServiceError ''Connection error.'')"
    by (simp add: service_down_def)
  note e = analyze_article_service_failure [where svc = service_down, OF h1 h2]
  show ?thesis
    unfolding e by (simp add: start_def london_def update_conv')
qed

text \<open>
  C3. With a service that raises, the retry wrapper sees a call that returns: the
  service is called once, there is no wait and no second attempt, and no exception
  reaches \<^verbatim>\<open>analyze_batch\<close>. (The wrapper does repeat a call that raises, three attempts
  with waits of 2 seconds, see \<open>analyze_article_raises\<close>; only building the prompt can
  make the call raise.)
\<close>
theorem service_failure_is_not_retried:
  "analyze_article service_down 0 (start [london]) =
     (Inr 1,
      \<lparr>heap = [london,
               AList.update ''rationale'' (PStr ''Error: Connection error.'')
                 (AList.update ''cities'' (PList []) london)],
       calls = 1,
       trace = [Request london_prompt, Log (ApiRequestFailed (ServiceError ''Connection error.''))]\<rparr>)"
proof -
  have h1: "prompt_of (heap (start [london]) ! 0) = Inr london_prompt"
    by (simp add: start_def london_prompt_eq)
  have h2: "service_down (calls (start [london])) london_prompt = Inl (ServiceError ''Connection error.'')"
    by (simp add: service_down_def)
  note e = analyze_article_service_failure [where svc = service_down, OF h1 h2]
  show ?thesis
    unfolding e by (simp add: start_def)
qed









end
